theory Spec2Isabelle
  imports Complex_Main
begin

section \<open>Finite scalar quantizer (class FSQ of fsq.ipynb)\<close>

text \<open>
  The quantizer works on NumPy/JAX arrays.  An array of shape \<open>(d,)\<close> is a list; an operation
  on a batch acts on every vector of the last axis independently, so the methods are modelled
  on one vector (one index) and the batch used by the constructor is a list of indices.
  NumPy's \<open>int64\<close> and \<open>uint32\<close> arithmetic is written with its wrap-around.  The level counts
  are taken to be integers that fit \<open>int64\<close>.

  Floating-point numbers are modelled twice.  The methods are first written over exact reals
  extended with the IEEE special values, so that a division by zero is visible; this serves
  the statements about formulas, ranges, shapes and digits.  The index codec is then written
  again with every operation rounded to the binary format of its array (\<open>float64\<close> for NumPy,
  \<open>float32\<close> for JAX in its default configuration); this serves the statements that depend
  on the rounding.
\<close>

subsection \<open>Errors\<close>

text \<open>
  The source raises \<open>AssertionError\<close> from the \<open>assert\<close> of \<open>codes_to_indexes\<close>; the array
  library raises a shape error when two arrays cannot be broadcast together, and an
  allocation error (\<open>MemoryError\<close>, or \<open>ValueError\<close> for a size beyond the address space) when
  an array cannot be allocated.
\<close>

datatype error = AssertionError | ShapeError | AllocationError

definition ebind :: "error + 'a \<Rightarrow> ('a \<Rightarrow> error + 'b) \<Rightarrow> error + 'b" where
  "ebind m f = (case m of Inl e \<Rightarrow> Inl e | Inr v \<Rightarrow> f v)"

subsection \<open>Floating-point values\<close>

datatype fval = Fin real | PInf | NInf | NaN

fun fneg :: "fval \<Rightarrow> fval" where
  "fneg (Fin a) = Fin (- a)"
| "fneg PInf = NInf"
| "fneg NInf = PInf"
| "fneg NaN = NaN"

fun fadd :: "fval \<Rightarrow> fval \<Rightarrow> fval" where
  "fadd (Fin a) (Fin b) = Fin (a + b)"
| "fadd NaN _ = NaN"
| "fadd _ NaN = NaN"
| "fadd PInf NInf = NaN"
| "fadd NInf PInf = NaN"
| "fadd PInf _ = PInf"
| "fadd _ PInf = PInf"
| "fadd NInf _ = NInf"
| "fadd _ NInf = NInf"

definition fsub :: "fval \<Rightarrow> fval \<Rightarrow> fval" where
  "fsub a b = fadd a (fneg b)"

text \<open>The infinity of the given sign: \<open>finf True\<close> is \<open>+inf\<close>.\<close>

definition finf :: "bool \<Rightarrow> fval" where
  "finf pos = (if pos then PInf else NInf)"

fun fmul :: "fval \<Rightarrow> fval \<Rightarrow> fval" where
  "fmul (Fin a) (Fin b) = Fin (a * b)"
| "fmul NaN _ = NaN"
| "fmul _ NaN = NaN"
| "fmul (Fin a) PInf = (if a = 0 then NaN else finf (0 < a))"
| "fmul (Fin a) NInf = (if a = 0 then NaN else finf (a < 0))"
| "fmul PInf (Fin b) = (if b = 0 then NaN else finf (0 < b))"
| "fmul NInf (Fin b) = (if b = 0 then NaN else finf (b < 0))"
| "fmul PInf PInf = PInf"
| "fmul PInf NInf = NInf"
| "fmul NInf PInf = NInf"
| "fmul NInf NInf = PInf"

text \<open>
  Division: \<open>0/0\<close> is NaN and \<open>x/0\<close> an infinity (every zero divisor of this program is
  a converted integer \<open>0\<close> or a product with it; the sign of zero is not modelled).
\<close>

fun fdiv :: "fval \<Rightarrow> fval \<Rightarrow> fval" where
  "fdiv (Fin a) (Fin b) =
     (if b = 0 then (if a = 0 then NaN else finf (0 < a)) else Fin (a / b))"
| "fdiv NaN _ = NaN"
| "fdiv _ NaN = NaN"
| "fdiv (Fin a) _ = Fin 0"
| "fdiv PInf (Fin b) = finf (0 \<le> b)"
| "fdiv NInf (Fin b) = finf (b < 0)"
| "fdiv _ _ = NaN"

text \<open>
  \<open>jnp.tan\<close>, \<open>jnp.tanh\<close>.  The poles of the tangent are not floating-point numbers, so the
  tangent of a finite number is finite.
\<close>

fun ftan :: "fval \<Rightarrow> fval" where
  "ftan (Fin a) = Fin (tan a)"
| "ftan _ = NaN"

fun ftanh :: "fval \<Rightarrow> fval" where
  "ftanh (Fin a) = Fin (tanh a)"
| "ftanh PInf = Fin 1"
| "ftanh NInf = Fin (- 1)"
| "ftanh NaN = NaN"

text \<open>\<open>jnp.round\<close> rounds to the nearest integer, a tie to the even one.\<close>

definition round_half_even :: "real \<Rightarrow> int" where
  "round_half_even x =
     (let f = \<lfloor>x\<rfloor>; r = x - real_of_int f
      in if r < 1 / 2 then f
         else if 1 / 2 < r then f + 1
         else if even f then f else f + 1)"

fun fround :: "fval \<Rightarrow> fval" where
  "fround (Fin a) = Fin (real_of_int (round_half_even a))"
| "fround v = v"

text \<open>
  \<open>astype(uint32)\<close> of a floating-point number truncates towards zero.  The result for NaN,
  an infinity or a number whose truncation is outside \<open>[0, 2^32)\<close> is not determined by
  the source (it depends on the platform): \<open>None\<close>.
\<close>

fun astype_uint32 :: "fval \<Rightarrow> nat option" where
  "astype_uint32 (Fin a) =
     (if - 1 < a \<and> a < 2 ^ 32 then Some (nat \<lfloor>a\<rfloor>) else None)"
| "astype_uint32 _ = None"

subsection \<open>Integer arrays\<close>

definition wrap64 :: "int \<Rightarrow> int" where
  "wrap64 x = (x + 2 ^ 63) mod 2 ^ 64 - 2 ^ 63"

definition to_uint32 :: "int \<Rightarrow> int" where
  "to_uint32 x = x mod 2 ^ 32"

text \<open>\<open>np.floor_divide\<close> and \<open>np.mod\<close> on integers: floored, and \<open>0\<close> for a zero divisor.\<close>

definition np_floor_divide :: "int \<Rightarrow> int \<Rightarrow> int" where
  "np_floor_divide a b = (if b = 0 then 0 else a div b)"

definition np_mod :: "int \<Rightarrow> int \<Rightarrow> int" where
  "np_mod a b = (if b = 0 then 0 else a mod b)"

text \<open>True division of two integer arrays gives floating-point numbers.\<close>

definition true_divide :: "int \<Rightarrow> int \<Rightarrow> fval" where
  "true_divide a b = fdiv (Fin (real_of_int a)) (Fin (real_of_int b))"

text \<open>\<open>np.cumprod\<close> and \<open>np.prod\<close> on \<open>int64\<close>.\<close>

fun cumprod_from :: "int \<Rightarrow> int list \<Rightarrow> int list" where
  "cumprod_from acc [] = []"
| "cumprod_from acc (x # xs) = wrap64 (acc * x) # cumprod_from (wrap64 (acc * x)) xs"

definition cumprod :: "int list \<Rightarrow> int list" where
  "cumprod xs = cumprod_from 1 xs"

definition np_prod :: "int list \<Rightarrow> int" where
  "np_prod xs = foldl (\<lambda>acc x. wrap64 (acc * x)) 1 xs"

definition np_sum :: "fval list \<Rightarrow> fval" where
  "np_sum xs = foldl fadd (Fin 0) xs"

text \<open>\<open>np.arange(n)\<close>: the integers \<open>0, ..., n - 1\<close>, none when \<open>n \<le> 0\<close>.\<close>

definition arange :: "int \<Rightarrow> int list" where
  "arange n = map int [0..<nat n]"

text \<open>
  An elementwise operation on two one-dimensional arrays: the shapes must be equal, or one of
  them is \<open>(1,)\<close> and its element is repeated; otherwise the library raises.
\<close>

definition broadcast2 :: "('a \<Rightarrow> 'b \<Rightarrow> 'c) \<Rightarrow> 'a list \<Rightarrow> 'b list \<Rightarrow> error + 'c list" where
  "broadcast2 f xs ys =
     (if length xs = length ys then Inr (map2 f xs ys)
      else if length xs = 1 then Inr (map (f (hd xs)) ys)
      else if length ys = 1 then Inr (map (\<lambda>x. f x (hd ys)) xs)
      else Inl ShapeError)"

text \<open>A batch: the rows are computed one by one, the first error is the result.\<close>

fun collect :: "(error + 'a) list \<Rightarrow> error + 'a list" where
  "collect [] = Inr []"
| "collect (r # rs) = ebind r (\<lambda>v. ebind (collect rs) (\<lambda>vs. Inr (v # vs)))"

subsection \<open>The class FSQ\<close>

text \<open>
  Every attribute that \<open>__init__\<close> sets is a function of its arguments \<open>levels\<close> and \<open>eps\<close>
  and is never assigned again, so a method is a function of \<open>levels\<close> (and \<open>eps\<close>), and
  \<open>self._basis\<close> is \<open>basis levels\<close>.
\<close>

definition basis :: "int list \<Rightarrow> int list" where
  "basis levels = map to_uint32 (1 # cumprod (butlast levels))"

definition num_dimensions :: "int list \<Rightarrow> nat" where
  "num_dimensions levels = length levels"

definition codebook_size :: "int list \<Rightarrow> int" where
  "codebook_size levels = np_prod levels"

definition half_width :: "int list \<Rightarrow> int list" where
  "half_width levels = map (\<lambda>L. L div 2) levels"

definition half_l :: "int list \<Rightarrow> real \<Rightarrow> real list" where
  "half_l levels eps = map (\<lambda>L. real_of_int (L - 1) * (1 - eps) / 2) levels"

definition offset :: "int list \<Rightarrow> real list" where
  "offset levels = map (\<lambda>L. if L mod 2 = 1 then 0 else 1 / 2) levels"

definition shift :: "int list \<Rightarrow> real \<Rightarrow> fval list" where
  "shift levels eps =
     map ftan (map2 (\<lambda>off h. fdiv (Fin off) (Fin h)) (offset levels) (half_l levels eps))"

definition bound :: "int list \<Rightarrow> real \<Rightarrow> fval list \<Rightarrow> error + fval list" where
  "bound levels eps z =
     ebind (broadcast2 fadd z (shift levels eps)) (\<lambda>s.
     ebind (broadcast2 fmul (map ftanh s) (map Fin (half_l levels eps))) (\<lambda>t.
     broadcast2 fsub t (map Fin (offset levels))))"

definition round_ste :: "fval \<Rightarrow> fval" where
  "round_ste z = (let zhat = fround z in fadd z (fsub zhat z))"

definition quantize :: "int list \<Rightarrow> real \<Rightarrow> fval list \<Rightarrow> error + fval list" where
  "quantize levels eps z =
     ebind (bound levels eps z) (\<lambda>b.
     broadcast2 fdiv (map round_ste b) (map (\<lambda>h. Fin (real_of_int h)) (half_width levels)))"

definition scale_and_shift :: "int list \<Rightarrow> fval list \<Rightarrow> error + fval list" where
  "scale_and_shift levels zhat_normalized =
     (let hw = map (\<lambda>h. Fin (real_of_int h)) (half_width levels)
      in ebind (broadcast2 fmul zhat_normalized hw) (\<lambda>p. broadcast2 fadd p hw))"

definition scale_and_shift_inverse :: "int list \<Rightarrow> int list \<Rightarrow> error + fval list" where
  "scale_and_shift_inverse levels zhat =
     ebind (broadcast2 (\<lambda>a h. a - h) zhat (half_width levels)) (\<lambda>c.
     broadcast2 true_divide c (half_width levels))"

definition codes_to_indexes :: "int list \<Rightarrow> fval list \<Rightarrow> error + nat option" where
  "codes_to_indexes levels zhat =
     (if length zhat \<noteq> num_dimensions levels then Inl AssertionError
      else ebind (scale_and_shift levels zhat) (\<lambda>z.
           ebind (broadcast2 fmul z (map (\<lambda>b. Fin (real_of_int b)) (basis levels))) (\<lambda>p.
           Inr (astype_uint32 (np_sum p)))))"

definition indexes_to_codes :: "int list \<Rightarrow> int \<Rightarrow> error + fval list" where
  "indexes_to_codes levels index =
     ebind (broadcast2 np_floor_divide [index] (basis levels)) (\<lambda>q.
     ebind (broadcast2 np_mod q levels) (\<lambda>codes_non_centered.
     scale_and_shift_inverse levels codes_non_centered))"

record FSQ =
  levels_of :: "int list"
  eps_of :: real
  basis_of :: "int list"
  implicit_codebook :: "fval list list"

definition FSQ_init :: "int list \<Rightarrow> real \<Rightarrow> error + FSQ" where
  "FSQ_init levels eps =
     ebind (collect (map (indexes_to_codes levels) (arange (codebook_size levels)))) (\<lambda>cb.
     Inr \<lparr>levels_of = levels, eps_of = eps, basis_of = basis levels,
          implicit_codebook = cb\<rparr>)"

definition codebook :: "FSQ \<Rightarrow> fval list list" where
  "codebook self = implicit_codebook self"

text \<open>
  The call \<open>FSQ(levels, eps)\<close> on a machine whose largest arrays hold \<open>capacity\<close> codebook
  entries: \<open>np.arange(codebook_size)\<close> and the codebook are allocated before they are filled,
  and the allocation raises when \<open>codebook_size\<close> is beyond the capacity.
\<close>

definition FSQ_construct :: "int \<Rightarrow> int list \<Rightarrow> real \<Rightarrow> error + FSQ" where
  "FSQ_construct capacity levels eps =
     (if capacity < codebook_size levels then Inl AllocationError else FSQ_init levels eps)"

subsection \<open>Binary floating-point arithmetic\<close>

text \<open>
  A binary format has a precision (the number of significand bits), the exponent of its least
  positive number and the exponent of its greatest binade.
\<close>

datatype format = Binary32 | Binary64

fun precision :: "format \<Rightarrow> int" where
  "precision Binary32 = 24"
| "precision Binary64 = 53"

fun least_exponent :: "format \<Rightarrow> int" where
  "least_exponent Binary32 = - 149"
| "least_exponent Binary64 = - 1074"

fun greatest_exponent :: "format \<Rightarrow> int" where
  "greatest_exponent Binary32 = 127"
| "greatest_exponent Binary64 = 1023"

definition pow2 :: "int \<Rightarrow> real" where
  "pow2 k = (if 0 \<le> k then 2 ^ nat k else 1 / 2 ^ nat (- k))"

text \<open>
  The exponent \<open>e\<close> of a positive number \<open>x\<close>, with \<open>2^e \<le> x < 2^(e+1)\<close>, found by halving
  or doubling at most \<open>n\<close> times.
\<close>

fun binary_exponent :: "nat \<Rightarrow> real \<Rightarrow> int" where
  "binary_exponent 0 x = 0"
| "binary_exponent (Suc n) x =
     (if 2 \<le> x then binary_exponent n (x / 2) + 1
      else if x < 1 then binary_exponent n (x * 2) - 1
      else 0)"

text \<open>
  Rounding of a real number to the format: to the nearest multiple of the quantum of its
  binade (of the least quantum for a subnormal number), a tie to the even multiple, and to an
  infinity when the rounded number is beyond the greatest binade.  The \<open>2200\<close> steps reach
  every binade of both formats; for a number beyond them the result is an infinity or zero
  all the same.
\<close>

definition round_to :: "format \<Rightarrow> real \<Rightarrow> fval" where
  "round_to fmt x =
     (if x = 0 then Fin 0
      else let e = binary_exponent 2200 \<bar>x\<bar>;
               q = max (e - precision fmt + 1) (least_exponent fmt);
               r = real_of_int (round_half_even (x / pow2 q)) * pow2 q
           in if pow2 (greatest_exponent fmt + 1) \<le> \<bar>r\<bar> then finf (0 < x) else Fin r)"

fun rnd :: "format \<Rightarrow> fval \<Rightarrow> fval" where
  "rnd fmt (Fin x) = round_to fmt x"
| "rnd fmt v = v"

text \<open>An arithmetic operation of the format is the exact operation, rounded.\<close>

definition fp_add :: "format \<Rightarrow> fval \<Rightarrow> fval \<Rightarrow> fval" where
  "fp_add fmt a b = rnd fmt (fadd a b)"

definition fp_mul :: "format \<Rightarrow> fval \<Rightarrow> fval \<Rightarrow> fval" where
  "fp_mul fmt a b = rnd fmt (fmul a b)"

definition fp_div :: "format \<Rightarrow> fval \<Rightarrow> fval \<Rightarrow> fval" where
  "fp_div fmt a b = rnd fmt (fdiv a b)"

text \<open>The conversion of an integer array to the format.\<close>

definition fp_of_int :: "format \<Rightarrow> int \<Rightarrow> fval" where
  "fp_of_int fmt k = round_to fmt (real_of_int k)"

subsection \<open>The index codec in floating-point arithmetic\<close>

text \<open>
  \<open>indexes_to_codes\<close> works on NumPy integer arrays, whose true division is a \<open>float64\<close>
  division of the converted operands.
\<close>

definition true_divide_fp :: "int \<Rightarrow> int \<Rightarrow> fval" where
  "true_divide_fp a b = fp_div Binary64 (fp_of_int Binary64 a) (fp_of_int Binary64 b)"

definition scale_and_shift_inverse_fp :: "int list \<Rightarrow> int list \<Rightarrow> error + fval list" where
  "scale_and_shift_inverse_fp levels zhat =
     ebind (broadcast2 (\<lambda>a h. a - h) zhat (half_width levels)) (\<lambda>c.
     broadcast2 true_divide_fp c (half_width levels))"

definition indexes_to_codes_fp :: "int list \<Rightarrow> int \<Rightarrow> error + fval list" where
  "indexes_to_codes_fp levels index =
     ebind (broadcast2 np_floor_divide [index] (basis levels)) (\<lambda>q.
     ebind (broadcast2 np_mod q levels) (\<lambda>codes_non_centered.
     scale_and_shift_inverse_fp levels codes_non_centered))"

text \<open>
  \<open>codes_to_indexes\<close> computes in the format \<open>fmt\<close> of the codeword it is given: \<open>float64\<close> for
  the NumPy array that \<open>indexes_to_codes\<close> returns, \<open>float32\<close> for the JAX array that
  \<open>quantize\<close> returns.  The integer arrays \<open>half_width\<close> and \<open>_basis\<close> are converted to that
  format, and the sum adds the entries from the left (as NumPy does for fewer than eight).
\<close>

definition scale_and_shift_fp :: "format \<Rightarrow> int list \<Rightarrow> fval list \<Rightarrow> error + fval list" where
  "scale_and_shift_fp fmt levels zhat_normalized =
     (let hw = map (fp_of_int fmt) (half_width levels)
      in ebind (broadcast2 (fp_mul fmt) zhat_normalized hw) (\<lambda>p.
         broadcast2 (fp_add fmt) p hw))"

definition np_sum_fp :: "format \<Rightarrow> fval list \<Rightarrow> fval" where
  "np_sum_fp fmt xs = foldl (fp_add fmt) (Fin 0) xs"

definition codes_to_indexes_fp :: "format \<Rightarrow> int list \<Rightarrow> fval list \<Rightarrow> error + nat option" where
  "codes_to_indexes_fp fmt levels zhat =
     (if length zhat \<noteq> num_dimensions levels then Inl AssertionError
      else ebind (scale_and_shift_fp fmt levels zhat) (\<lambda>z.
           ebind (broadcast2 (fp_mul fmt) z (map (fp_of_int fmt) (basis levels))) (\<lambda>p.
           Inr (astype_uint32 (np_sum_fp fmt p)))))"

subsection \<open>Notions used in the statements and proofs\<close>

text \<open>
  The configurations the specification calls valid: at least one dimension, every level count
  positive, and a codebook size that fits the index type \<open>uint32\<close>.
\<close>

definition valid_levels :: "int list \<Rightarrow> bool" where
  "valid_levels levels \<longleftrightarrow>
     levels \<noteq> [] \<and> (\<forall>L\<in>set levels. 1 \<le> L) \<and> prod_list levels < 2 ^ 32"

text \<open>The level counts that NumPy stores in an \<open>int64\<close> array.\<close>

definition fits_int64 :: "int \<Rightarrow> bool" where
  "fits_int64 L \<longleftrightarrow> - (2 ^ 63) \<le> L \<and> L < 2 ^ 63"

text \<open>The value of the local \<open>codes_non_centered\<close> of \<open>indexes_to_codes\<close>.\<close>

definition codes_non_centered :: "int list \<Rightarrow> int \<Rightarrow> int list" where
  "codes_non_centered levels index =
     map2 np_mod (map (np_floor_divide index) (basis levels)) levels"

text \<open>The codeword that \<open>_scale_and_shift_inverse\<close> makes of a vector of digits.\<close>

definition code_of_digits :: "int list \<Rightarrow> int list \<Rightarrow> fval list" where
  "code_of_digits levels ds = map2 (\<lambda>d h. true_divide (d - h) h) ds (half_width levels)"



text \<open>
  Mixed-radix numerals without wrap-around: the place values, the digits of a number
  (least significant first) and the value of a digit vector.
\<close>

fun radix_basis :: "int \<Rightarrow> int list \<Rightarrow> int list" where
  "radix_basis acc [] = []"
| "radix_basis acc (L # Ls) = acc # radix_basis (acc * L) Ls"

fun dig :: "int list \<Rightarrow> int \<Rightarrow> int list" where
  "dig [] m = []"
| "dig (L # Ls) m = (m mod L) # dig Ls (m div L)"

fun val :: "int list \<Rightarrow> int list \<Rightarrow> int" where
  "val (L # Ls) (d # ds) = d + L * val Ls ds"
| "val _ _ = 0"

text \<open>The digit that \<open>quantize\<close> selects in a dimension with \<open>L\<close> levels for the input \<open>x\<close>.\<close>

definition quantized_digit :: "int \<Rightarrow> real \<Rightarrow> real \<Rightarrow> int" where
  "quantized_digit L eps x =
     (let hl = real_of_int (L - 1) * (1 - eps) / 2;
          off = (if L mod 2 = 1 then 0 else 1 / 2)
      in round_half_even (tanh (x + tan (off / hl)) * hl - off) + L div 2)"

text \<open>
  One component of \<open>bound\<close> and of \<open>quantize\<close>, for a dimension with \<open>L\<close> levels.
\<close>

definition bound1 :: "int \<Rightarrow> real \<Rightarrow> fval \<Rightarrow> fval" where
  "bound1 L eps v =
     (let hl = real_of_int (L - 1) * (1 - eps) / 2;
          off = (if L mod 2 = 1 then 0 else 1 / 2)
      in fsub (fmul (ftanh (fadd v (ftan (fdiv (Fin off) (Fin hl))))) (Fin hl)) (Fin off))"

definition quantize1 :: "int \<Rightarrow> real \<Rightarrow> fval \<Rightarrow> fval" where
  "quantize1 L eps v = fdiv (round_ste (bound1 L eps v)) (Fin (real_of_int (L div 2)))"


section \<open>Properties\<close>

subsection \<open>Arrays and shapes\<close>

lemma ebind_Inr [simp]: "ebind (Inr v) f = f v"
  by (simp add: ebind_def)

lemma ebind_Inl [simp]: "ebind (Inl e) f = Inl e"
  by (simp add: ebind_def)

lemma broadcast2_same_length:
  "length xs = length ys \<Longrightarrow> broadcast2 f xs ys = Inr (map2 f xs ys)"
  by (simp add: broadcast2_def)

lemma broadcast2_singleton_left: "broadcast2 f [x] ys = Inr (map (f x) ys)"
proof (cases "length ys = 1")
  case True
  then obtain y where "ys = [y]"
    by (cases ys) auto
  then show ?thesis
    by (simp add: broadcast2_def)
next
  case False
  then show ?thesis
    by (simp add: broadcast2_def)
qed

lemma length_cumprod_from [simp]: "length (cumprod_from acc xs) = length xs"
  by (induction xs arbitrary: acc) simp_all

lemma length_basis: "levels \<noteq> [] \<Longrightarrow> length (basis levels) = length levels"
  by (simp add: basis_def cumprod_def)

lemma length_half_width [simp]: "length (half_width levels) = length levels"
  by (simp add: half_width_def)

lemma scale_and_shift_inverse_same_length:
  "length ds = length levels \<Longrightarrow>
   scale_and_shift_inverse levels ds =
     Inr (map2 (\<lambda>d h. true_divide (d - h) h) ds (half_width levels))"
  apply (simp add: scale_and_shift_inverse_def broadcast2_same_length)
  apply (rule nth_equalityI)
   apply simp_all
  done

lemma indexes_to_codes_nonempty:
  assumes "levels \<noteq> []"
  shows "indexes_to_codes levels index =
     Inr (map2 (\<lambda>d h. true_divide (d - h) h) (codes_non_centered levels index) (half_width levels))"
proof -
  let ?q = "map (np_floor_divide index) (basis levels)"
  have len: "length ?q = length levels"
    using assms by (simp add: length_basis)
  have q: "broadcast2 np_floor_divide [index] (basis levels) = Inr ?q"
    by (rule broadcast2_singleton_left)
  have m: "broadcast2 np_mod ?q levels = Inr (codes_non_centered levels index)"
    unfolding codes_non_centered_def using len by (rule broadcast2_same_length)
  have "length (codes_non_centered levels index) = length levels"
    unfolding codes_non_centered_def using len by simp
  then have "scale_and_shift_inverse levels (codes_non_centered levels index) =
      Inr (map2 (\<lambda>d h. true_divide (d - h) h) (codes_non_centered levels index) (half_width levels))"
    by (rule scale_and_shift_inverse_same_length)
  then show ?thesis
    unfolding indexes_to_codes_def by (simp only: q m ebind_Inr)
qed

lemma indexes_to_codes_empty: "indexes_to_codes [] index = Inr []"
  by (simp add: indexes_to_codes_def broadcast2_singleton_left broadcast2_def
      scale_and_shift_inverse_def half_width_def basis_def cumprod_def)

lemma length_codes_non_centered: "levels \<noteq> [] \<Longrightarrow> length (codes_non_centered levels index) = length levels"
  by (simp add: codes_non_centered_def length_basis)

lemma indexes_to_codes_returns:
  "\<exists>c. indexes_to_codes levels index = Inr c \<and> length c = length levels"
proof (cases "levels = []")
  case True
  then show ?thesis
    by (simp add: indexes_to_codes_empty)
next
  case False
  then show ?thesis
    by (simp add: indexes_to_codes_nonempty length_codes_non_centered)
qed

lemma collect_map_Inr:
  "(\<And>x. x \<in> set xs \<Longrightarrow> \<exists>v. f x = Inr v) \<Longrightarrow> collect (map f xs) = Inr (map (\<lambda>x. projr (f x)) xs)"
proof (induction xs)
  case Nil
  then show ?case by simp
next
  case (Cons x xs)
  then obtain v where "f x = Inr v"
    by auto
  moreover have "collect (map f xs) = Inr (map (\<lambda>x. projr (f x)) xs)"
    using Cons by simp
  ultimately show ?case
    by simp
qed

lemma FSQ_init_eq:
  "FSQ_init levels eps =
     Inr \<lparr>levels_of = levels, eps_of = eps, basis_of = basis levels,
          implicit_codebook =
            map (\<lambda>k. projr (indexes_to_codes levels k)) (arange (codebook_size levels))\<rparr>"
  unfolding FSQ_init_def
  using collect_map_Inr [of "arange (codebook_size levels)" "indexes_to_codes levels"]
    indexes_to_codes_returns [of levels]
  by (metis ebind_Inr)

lemma wrap64_id: "- (2 ^ 63) \<le> x \<Longrightarrow> x < 2 ^ 63 \<Longrightarrow> wrap64 x = x"
  by (simp add: wrap64_def)

lemma to_uint32_id: "0 \<le> x \<Longrightarrow> x < 2 ^ 32 \<Longrightarrow> to_uint32 x = x"
  by (simp add: to_uint32_def)

lemma length_radix_basis [simp]: "length (radix_basis acc Ls) = length Ls"
  by (induction Ls arbitrary: acc) simp_all

lemma length_dig [simp]: "length (dig Ls m) = length Ls"
  by (induction Ls arbitrary: m) simp_all

lemma prod_list_pos: "\<forall>L\<in>set Ls. 1 \<le> L \<Longrightarrow> 1 \<le> prod_list Ls" for Ls :: "int list"
proof (induction Ls)
  case Nil
  then show ?case by simp
next
  case (Cons L Ls)
  then have "1 \<le> L" and "1 \<le> prod_list Ls"
    by simp_all
  then have "1 * 1 \<le> L * prod_list Ls"
    by (intro mult_mono) simp_all
  then show ?case by simp
qed

lemma mult_ge_one:
  fixes a b :: int
  assumes "1 \<le> a" and "1 \<le> b"
  shows "1 \<le> a * b" and "a \<le> a * b"
proof -
  show "a \<le> a * b"
    using mult_left_mono [of 1 b a] assms by simp
  then show "1 \<le> a * b"
    using assms(1) by linarith
qed

lemma basis_aux:
  assumes "\<forall>L\<in>set (L0 # Ls). 1 \<le> L" and "1 \<le> acc"
    and "acc * prod_list (butlast (L0 # Ls)) < 2 ^ 32"
  shows "map to_uint32 (acc # cumprod_from acc (butlast (L0 # Ls))) = radix_basis acc (L0 # Ls)"
  using assms
proof (induction Ls arbitrary: acc L0)
  case Nil
  then show ?case
    by (simp add: to_uint32_id)
next
  case (Cons L1 Ls)
  have pos: "1 \<le> prod_list (butlast (L1 # Ls))"
    using Cons.prems(1) by (intro prod_list_pos) (auto dest: in_set_butlastD)
  have L0: "1 \<le> L0"
    using Cons.prems(1) by simp
  have bound: "acc * L0 * prod_list (butlast (L1 # Ls)) < 2 ^ 32"
    using Cons.prems(3) by (simp add: mult.assoc)
  have accL0: "1 \<le> acc * L0" and acc_le: "acc \<le> acc * L0"
    using mult_ge_one [OF Cons.prems(2) L0] by simp_all
  have "acc * L0 \<le> acc * L0 * prod_list (butlast (L1 # Ls))"
    using mult_ge_one [OF accL0 pos] by simp
  then have small: "acc * L0 < 2 ^ 32"
    using bound by simp
  then have acc: "acc < 2 ^ 32"
    using acc_le by simp
  have w: "wrap64 (acc * L0) = acc * L0"
    using small accL0 by (intro wrap64_id) simp_all
  have "map to_uint32 (acc * L0 # cumprod_from (acc * L0) (butlast (L1 # Ls)))
      = radix_basis (acc * L0) (L1 # Ls)"
    using Cons.prems(1) accL0 bound by (intro Cons.IH) simp_all
  then show ?case
    using acc Cons.prems(2) by (simp add: w to_uint32_id)
qed

lemma prod_list_butlast_le:
  fixes Ls :: "int list"
  assumes "Ls \<noteq> []" and "\<forall>L\<in>set Ls. 1 \<le> L"
  shows "prod_list (butlast Ls) \<le> prod_list Ls"
proof -
  have "Ls = butlast Ls @ [last Ls]"
    using assms(1) by simp
  then have eq: "prod_list Ls = prod_list (butlast Ls) * last Ls"
    by (metis prod_list.append prod_list.Cons prod_list.Nil mult.right_neutral)
  have "1 \<le> last Ls"
    using assms by simp
  moreover have "1 \<le> prod_list (butlast Ls)"
    using assms(2) by (intro prod_list_pos) (auto dest: in_set_butlastD)
  ultimately have "prod_list (butlast Ls) * 1 \<le> prod_list (butlast Ls) * last Ls"
    by (intro mult_left_mono) simp_all
  then show ?thesis
    using eq by simp
qed

lemma basis_radix:
  assumes "levels \<noteq> []" and "\<forall>L\<in>set levels. 1 \<le> L" and "prod_list levels < 2 ^ 32"
  shows "basis levels = radix_basis 1 levels"
proof -
  obtain L0 Ls where eq: "levels = L0 # Ls"
    using assms(1) by (cases levels) auto
  have "prod_list (butlast levels) < 2 ^ 32"
    using prod_list_butlast_le [OF assms(1,2)] assms(3) by simp
  then show ?thesis
    unfolding basis_def cumprod_def eq
    using assms(2) eq by (intro basis_aux) simp_all
qed

lemma np_prod_aux:
  assumes "\<forall>L\<in>set Ls. 1 \<le> L" and "1 \<le> acc" and "acc * prod_list Ls < 2 ^ 63"
  shows "foldl (\<lambda>acc x. wrap64 (acc * x)) acc Ls = acc * prod_list Ls"
  using assms
proof (induction Ls arbitrary: acc)
  case Nil
  then show ?case by simp
next
  case (Cons L Ls)
  have L: "1 \<le> L" and pos: "1 \<le> prod_list Ls"
    using Cons.prems(1) by (simp_all add: prod_list_pos)
  have bound: "acc * L * prod_list Ls < 2 ^ 63"
    using Cons.prems(3) by (simp add: mult.assoc)
  have accL: "1 \<le> acc * L"
    using mult_ge_one [OF Cons.prems(2) L] by simp
  have "acc * L \<le> acc * L * prod_list Ls"
    using mult_ge_one [OF accL pos] by simp
  then have "acc * L < 2 ^ 63"
    using bound by simp
  then have w: "wrap64 (acc * L) = acc * L"
    using accL by (intro wrap64_id) simp_all
  have "foldl (\<lambda>acc x. wrap64 (acc * x)) (acc * L) Ls = acc * L * prod_list Ls"
    using Cons.prems(1) accL bound by (intro Cons.IH) simp_all
  then show ?case
    by (simp add: w mult.assoc)
qed

lemma codebook_size_prod:
  assumes "\<forall>L\<in>set levels. 1 \<le> L" and "prod_list levels < 2 ^ 32"
  shows "codebook_size levels = prod_list levels"
proof -
  have "1 * prod_list levels < 2 ^ 63"
    using assms(2) by simp
  then have "foldl (\<lambda>acc x. wrap64 (acc * x)) 1 levels = 1 * prod_list levels"
    using assms(1) by (intro np_prod_aux) simp_all
  then show ?thesis
    by (simp add: codebook_size_def np_prod_def)
qed

lemma np_digits_radix:
  assumes "0 < acc" and "\<forall>L\<in>set Ls. 1 \<le> L"
  shows "map2 np_mod (map (np_floor_divide index) (radix_basis acc Ls)) Ls = dig Ls (index div acc)"
  using assms
proof (induction Ls arbitrary: acc)
  case Nil
  then show ?case by simp
next
  case (Cons L Ls)
  have L: "1 \<le> L"
    using Cons.prems(2) by simp
  then have "0 < acc * L"
    using Cons.prems(1) by simp
  then have "map2 np_mod (map (np_floor_divide index) (radix_basis (acc * L) Ls)) Ls
      = dig Ls (index div (acc * L))"
    using Cons.prems(2) by (intro Cons.IH) simp_all
  moreover have "index div (acc * L) = index div acc div L"
    using L by (intro zdiv_zmult2_eq) simp
  moreover have "np_floor_divide index acc = index div acc"
    using Cons.prems(1) by (simp add: np_floor_divide_def)
  moreover have "np_mod (index div acc) L = index div acc mod L"
    using L by (simp add: np_mod_def)
  ultimately show ?case
    by simp
qed

lemma val_dig:
  assumes "\<forall>L\<in>set Ls. 1 \<le> L"
  shows "val Ls (dig Ls m) = m mod prod_list Ls"
  using assms
proof (induction Ls arbitrary: m)
  case Nil
  then show ?case by simp
next
  case (Cons L Ls)
  have "0 \<le> prod_list Ls"
    using prod_list_pos [of Ls] Cons.prems by simp
  then have "m mod (L * prod_list Ls) = L * (m div L mod prod_list Ls) + m mod L"
    by (rule zmod_zmult2_eq)
  moreover have "val Ls (dig Ls (m div L)) = m div L mod prod_list Ls"
    using Cons.prems by (intro Cons.IH) simp
  ultimately show ?case
    by simp
qed

lemma dig_val:
  assumes "list_all2 (\<lambda>d L. 0 \<le> d \<and> d < L) ds Ls"
  shows "dig Ls (val Ls ds) = ds \<and> 0 \<le> val Ls ds \<and> val Ls ds < prod_list Ls"
  using assms
proof (induction ds Ls rule: list_all2_induct)
  case Nil
  then show ?case by simp
next
  case (Cons d ds L Ls)
  let ?v = "val Ls ds"
  have d: "0 \<le> d" "d < L" and v: "0 \<le> ?v" "?v < prod_list Ls" and IH: "dig Ls ?v = ds"
    using Cons by simp_all
  have m: "(d + L * ?v) mod L = d"
    using d by simp
  have q: "(d + L * ?v) div L = ?v"
    using d by simp
  have "0 \<le> L * ?v"
    using d v by simp
  then have nonneg: "0 \<le> d + L * ?v"
    using d by simp
  have "?v + 1 \<le> prod_list Ls"
    using v by simp
  then have "L * (?v + 1) \<le> L * prod_list Ls"
    using d by (intro mult_left_mono) simp_all
  then have "d + L * ?v < L * prod_list Ls"
    using d by (simp add: algebra_simps)
  then show ?case
    using m q nonneg IH by simp
qed

lemma dig_range:
  assumes "\<forall>L\<in>set Ls. 1 \<le> L"
  shows "list_all2 (\<lambda>d L. 0 \<le> d \<and> d < L) (dig Ls m) Ls"
  using assms by (induction Ls arbitrary: m) simp_all

lemma dig_periodic:
  assumes "\<forall>L\<in>set Ls. 1 \<le> L"
  shows "dig Ls (m mod prod_list Ls) = dig Ls m"
proof -
  have "dig Ls (val Ls (dig Ls m)) = dig Ls m"
    using dig_val [OF dig_range [OF assms]] by simp
  then show ?thesis
    by (simp add: val_dig [OF assms])
qed

lemma codes_non_centered_dig:
  assumes "levels \<noteq> []" and "\<forall>L\<in>set levels. 1 \<le> L" and "prod_list levels < 2 ^ 32"
  shows "codes_non_centered levels index = dig levels index"
  unfolding codes_non_centered_def basis_radix [OF assms]
  using np_digits_radix [of 1 levels index] assms(2) by simp

lemma indexes_to_codes_valid:
  assumes "valid_levels levels"
  shows "indexes_to_codes levels index = Inr (code_of_digits levels (dig levels index))"
proof -
  have "levels \<noteq> []"
    using assms by (simp add: valid_levels_def)
  moreover have "codes_non_centered levels index = dig levels index"
    using assms by (intro codes_non_centered_dig) (simp_all add: valid_levels_def)
  ultimately show ?thesis
    by (simp add: indexes_to_codes_nonempty code_of_digits_def)
qed


subsection \<open>Indices out of range\<close>

text \<open>
  Claim C10.  For a valid configuration and every integer index, in range or not,
  \<open>indexes_to_codes\<close> returns a codeword and raises nothing, and the codeword is that of the
  index reduced modulo \<open>codebook_size\<close>, which is a valid index.
\<close>

theorem indexes_to_codes_periodic:
  assumes "valid_levels levels"
  shows "\<exists>c. indexes_to_codes levels index = Inr c \<and>
             indexes_to_codes levels (index mod codebook_size levels) = Inr c \<and>
             0 \<le> index mod codebook_size levels \<and>
             index mod codebook_size levels < codebook_size levels"
proof -
  have pos: "\<forall>L\<in>set levels. 1 \<le> L" and small: "prod_list levels < 2 ^ 32"
    using assms(1) by (simp_all add: valid_levels_def)
  have "0 < prod_list levels"
    using prod_list_pos [OF pos] by simp
  then show ?thesis
    by (simp add: indexes_to_codes_valid [OF assms] codebook_size_prod [OF pos small]
        dig_periodic [OF pos])
qed

theorem indexes_to_codes_periodic_witness:
  "indexes_to_codes [3, 5, 4] 97 = indexes_to_codes [3, 5, 4] 37"
  using indexes_to_codes_periodic [of "[3, 5, 4]" 97]
  by (auto simp add: valid_levels_def codebook_size_def np_prod_def wrap64_def)

text \<open>
  Claim C7, as amended.  \<open>indexes_to_codes\<close> has no range check: for every list of levels and
  every integer index it returns a codeword with one component per dimension, and never an
  error.
\<close>

theorem indexes_to_codes_no_range_check:
  "\<exists>c. indexes_to_codes levels index = Inr c \<and> length c = num_dimensions levels"
  using indexes_to_codes_returns [of levels index] by (simp add: num_dimensions_def)

text \<open>
  With \<open>levels = [3, 5, 4]\<close> the codebook has 60 entries; the indices \<open>60\<close> and \<open>-1\<close> are
  decoded like \<open>0\<close> and \<open>59\<close>, and nothing is raised.
\<close>

theorem indexes_to_codes_no_range_check_counterexample:
  "codebook_size [3, 5, 4] = 60 \<and>
   indexes_to_codes [3, 5, 4] 60 = Inr [Fin (- 1), Fin (- 1), Fin (- 1)] \<and>
   indexes_to_codes [3, 5, 4] (- 1) = Inr [Fin 1, Fin 1, Fin (1 / 2)]"
  by (simp add: indexes_to_codes_def basis_def cumprod_def wrap64_def
      to_uint32_def broadcast2_def np_floor_divide_def np_mod_def scale_and_shift_inverse_def
      half_width_def true_divide_def codebook_size_def np_prod_def)

subsection \<open>Construction and the implicit codebook\<close>

lemma arange_zero: "arange 0 = []"
  by (simp add: arange_def)

lemma arange_one: "arange 1 = [0]"
  by (simp add: arange_def)

text \<open>
  Claim C6, as amended.  \<open>__init__\<close> validates nothing and has no configuration error.  For
  every list of \<open>int64\<close> level counts, also an empty one, one with an entry less than 1 or one
  whose product overflows, it returns a complete instance (the arguments, the basis and one
  codeword for each index of \<open>arange(codebook_size)\<close>) whenever the codebook can be allocated,
  and raises the allocation error, returning no instance, otherwise.
\<close>

theorem FSQ_construct_no_validation:
  assumes "\<forall>L\<in>set levels. fits_int64 L"
  shows "(codebook_size levels \<le> capacity \<longrightarrow>
      (\<exists>self. FSQ_construct capacity levels eps = Inr self \<and> levels_of self = levels \<and>
         eps_of self = eps \<and> basis_of self = basis levels \<and>
         length (codebook self) = length (arange (codebook_size levels)))) \<and>
     (capacity < codebook_size levels \<longrightarrow>
      FSQ_construct capacity levels eps = Inl AllocationError)"
  by (simp add: FSQ_construct_def FSQ_init_eq codebook_def)

theorem FSQ_construct_no_validation_witness:
  "(\<exists>self. FSQ_construct 1000 [- 2, - 3] (1 / 1000) = Inr self \<and> levels_of self = [- 2, - 3] \<and>
      eps_of self = 1 / 1000 \<and> basis_of self = [1, 4294967294] \<and>
      length (codebook self) = 6) \<and>
   FSQ_construct 1000 [65536, 65536, 2] (1 / 1000) = Inl AllocationError"
proof -
  have cs: "codebook_size [- 2, - 3] = 6" "codebook_size [65536, 65536, 2] = 8589934592"
    by (simp_all add: codebook_size_def np_prod_def wrap64_def)
  have b: "basis [- 2, - 3] = [1, 4294967294]"
    by (simp add: basis_def cumprod_def wrap64_def to_uint32_def)
  have "length (arange 6) = 6"
    by (simp add: arange_def)
  then show ?thesis
    using FSQ_construct_no_validation [of "[- 2, - 3]" 1000 "1 / 1000"]
      FSQ_construct_no_validation [of "[65536, 65536, 2]" 1000 "1 / 1000"] cs b
    by (simp add: fits_int64_def)
qed

text \<open>
  An empty list of levels gives an instance with one empty codeword; a level \<open>0\<close> gives an
  empty codebook; four levels \<open>65536\<close> have the product \<open>2^64\<close>, which \<open>int64\<close> wraps to \<open>0\<close>,
  and give an empty codebook as well.
\<close>

theorem FSQ_construct_counterexample:
  "FSQ_construct 1000 [] (1 / 1000) =
     Inr \<lparr>levels_of = [], eps_of = 1 / 1000, basis_of = [1], implicit_codebook = [[]]\<rparr> \<and>
   FSQ_construct 1000 [0] (1 / 1000) =
     Inr \<lparr>levels_of = [0], eps_of = 1 / 1000, basis_of = [1], implicit_codebook = []\<rparr> \<and>
   FSQ_construct 1000 [65536, 65536, 65536, 65536] (1 / 1000) =
     Inr \<lparr>levels_of = [65536, 65536, 65536, 65536], eps_of = 1 / 1000,
          basis_of = [1, 65536, 0, 0], implicit_codebook = []\<rparr>"
  by (simp add: FSQ_construct_def FSQ_init_def codebook_size_def np_prod_def wrap64_def
      arange_zero arange_one indexes_to_codes_empty basis_def cumprod_def to_uint32_def)

text \<open>
  Claim C9.  When \<open>codebook_size\<close> is not negative, the constructor returns an instance whose
  codebook has \<open>codebook_size\<close> entries, the \<open>k\<close>-th of which is the codeword that
  \<open>indexes_to_codes\<close> returns for \<open>k\<close>.
\<close>

theorem codebook_enumerates:
  assumes "0 \<le> codebook_size levels"
  shows "\<exists>self. FSQ_init levels eps = Inr self \<and>
      int (length (codebook self)) = codebook_size levels \<and>
      (\<forall>k<length (codebook self). indexes_to_codes levels (int k) = Inr (codebook self ! k))"
proof -
  let ?cb = "map (\<lambda>k. projr (indexes_to_codes levels k)) (arange (codebook_size levels))"
  have len: "int (length ?cb) = codebook_size levels"
    using assms by (simp add: arange_def)
  have "indexes_to_codes levels (int k) = Inr (?cb ! k)" if "k < length ?cb" for k
  proof -
    obtain c where c: "indexes_to_codes levels (int k) = Inr c"
      using indexes_to_codes_returns by blast
    have "?cb ! k = projr (indexes_to_codes levels (int k))"
      using that by (simp add: arange_def)
    then show ?thesis
      using c by simp
  qed
  then show ?thesis
    using len by (simp add: FSQ_init_eq codebook_def)
qed

theorem codebook_enumerates_witness:
  "\<exists>self. FSQ_init [3, 4] (1 / 1000) = Inr self \<and> int (length (codebook self)) = 12 \<and>
      codebook self ! 5 = [Fin 1, Fin (- (1 / 2))] \<and>
      indexes_to_codes [3, 4] 5 = Inr (codebook self ! 5)"
proof -
  have cs: "codebook_size [3, 4] = 12"
    by (simp add: codebook_size_def np_prod_def wrap64_def)
  have d: "indexes_to_codes [3, 4] 5 = Inr [Fin 1, Fin (- (1 / 2))]"
    by code_simp
  obtain self where init: "FSQ_init [3, 4] (1 / 1000) = Inr self"
    and len: "int (length (codebook self)) = codebook_size [3, 4]"
    and nth: "\<forall>k<length (codebook self). indexes_to_codes [3, 4] (int k) = Inr (codebook self ! k)"
    using codebook_enumerates [of "[3, 4]" "1 / 1000"] cs by auto
  have "5 < length (codebook self)"
    using len cs by simp
  then have "indexes_to_codes [3, 4] (int 5) = Inr (codebook self ! 5)"
    using nth by blast
  then have "codebook self ! 5 = [Fin 1, Fin (- (1 / 2))]"
    using d by simp
  then show ?thesis
    using init len cs d by auto
qed

subsection \<open>A dimension with a single level\<close>

lemma fadd_NaN_right [simp]: "fadd z NaN = NaN"
  by (cases z) simp_all

text \<open>
  Claim C5.  With \<open>levels = [1]\<close> the codebook size is \<open>1\<close> and \<open>0\<close> is the only index in
  range, as the claim says.  But the half width of the dimension is \<open>1 // 2 = 0\<close>, so
  \<open>indexes_to_codes\<close> divides \<open>0\<close> by \<open>0\<close> and \<open>bound\<close> takes the tangent of \<open>0 / 0\<close>: the
  component that \<open>quantize\<close> returns for any input and the component of the codeword decoded
  from index \<open>0\<close> are NaN, where the claim (and the renormalization to \<open>[-1, 1]\<close> that the
  source announces) requires \<open>0\<close>.
\<close>

theorem single_level:
  "codebook_size [1] = 1 \<and> ((0 \<le> index \<and> index < codebook_size [1]) = (index = 0)) \<and>
   quantize [1] eps [z] = Inr [NaN] \<and> indexes_to_codes [1] 0 = Inr [NaN]"
proof -
  have cs: "codebook_size [1] = 1"
    by (simp add: codebook_size_def np_prod_def wrap64_def)
  have q: "quantize [1] eps [z] = Inr [NaN]"
    by (simp add: quantize_def bound_def shift_def offset_def half_l_def half_width_def
        broadcast2_def round_ste_def fsub_def)
  have d: "indexes_to_codes [1] 0 = Inr [NaN]"
    by code_simp
  show ?thesis
    using cs q d by auto
qed

subsection \<open>The bounding transform\<close>

lemma tan_gt_self:
  fixes x :: real
  assumes "0 < x" and "x < pi / 2"
  shows "x < tan x"
proof -
  let ?f = "\<lambda>t. tan t - t"
  have "?f 0 < ?f x"
  proof (rule DERIV_pos_imp_increasing_open [OF assms(1)])
    fix t :: real
    assume t: "0 < t" "t < x"
    then have c: "0 < cos t"
      using assms(2) by (intro cos_gt_zero) simp_all
    have "cos t < cos 0"
      using t assms(2) pi_gt_zero by (intro cos_monotone_0_pi) simp_all
    then have c1: "cos t < 1"
      by simp
    have "(cos t)\<^sup>2 < 1"
      using c c1 by (simp add: power_less_one_iff abs_square_less_1)
    moreover have "0 < (cos t)\<^sup>2"
      using c by simp
    ultimately have "1 < inverse ((cos t)\<^sup>2)"
      by (simp add: one_less_inverse_iff)
    then have pos: "0 < inverse ((cos t)\<^sup>2) - 1"
      by simp
    have "DERIV ?f t :> inverse ((cos t)\<^sup>2) - 1"
      using c by (auto intro!: derivative_eq_intros)
    then show "\<exists>y. DERIV ?f t :> y \<and> 0 < y"
      using pos by blast
  next
    have "cos t \<noteq> 0" if "t \<in> {0..x}" for t
    proof -
      have "0 < cos t"
        using that assms(2) by (intro cos_gt_zero_pi) simp_all
      then show ?thesis by simp
    qed
    then show "continuous_on {0..x} ?f"
      by (intro continuous_intros) simp_all
  qed
  then show ?thesis
    by simp
qed

lemma arctan_less_tan:
  fixes x :: real
  assumes "0 < x" and "x < pi / 2"
  shows "arctan x < tan x"
proof -
  let ?y = "arctan x"
  have "0 < ?y"
    using assms(1) by simp
  then have "?y < tan ?y"
    using arctan_ubound by (intro tan_gt_self) simp_all
  then have "?y < x"
    by (simp add: tan_arctan)
  then show ?thesis
    using tan_gt_self [OF assms] by simp
qed

lemma round_half_even_bounds:
  "x - 1 / 2 \<le> real_of_int (round_half_even x) \<and> real_of_int (round_half_even x) \<le> x + 1 / 2"
proof -
  define f where "f = \<lfloor>x\<rfloor>"
  have "real_of_int f \<le> x" and "x < real_of_int f + 1"
    unfolding f_def by linarith+
  then show ?thesis
    unfolding round_half_even_def Let_def f_def [symmetric] by auto
qed



lemma length_shift [simp]: "length (shift levels eps) = length levels"
  by (simp add: shift_def offset_def half_l_def)

lemma length_half_l [simp]: "length (half_l levels eps) = length levels"
  by (simp add: half_l_def)

lemma length_offset [simp]: "length (offset levels) = length levels"
  by (simp add: offset_def)

lemma bound_same_length:
  assumes "length z = length levels"
  shows "bound levels eps z = Inr (map2 (\<lambda>L v. bound1 L eps v) levels z)"
proof -
  let ?s = "map2 fadd z (shift levels eps)"
  let ?t = "map2 fmul (map ftanh ?s) (map Fin (half_l levels eps))"
  let ?r = "map2 fsub ?t (map Fin (offset levels))"
  have l1: "length z = length (shift levels eps)"
    using assms by simp
  have l2: "length (map ftanh ?s) = length (map Fin (half_l levels eps))"
    using assms by simp
  have l3: "length ?t = length (map Fin (offset levels))"
    using assms by simp
  have "bound levels eps z = Inr ?r"
    unfolding bound_def
    by (simp only: broadcast2_same_length [OF l1] broadcast2_same_length [OF l2]
        broadcast2_same_length [OF l3] ebind_Inr)
  moreover have "?r = map2 (\<lambda>L v. bound1 L eps v) levels z"
  proof (rule nth_equalityI)
    show "length ?r = length (map2 (\<lambda>L v. bound1 L eps v) levels z)"
      using assms by simp
  next
    fix i
    assume "i < length ?r"
    then have "i < length levels"
      by simp
    then show "?r ! i = map2 (\<lambda>L v. bound1 L eps v) levels z ! i"
      using assms by (simp add: shift_def offset_def half_l_def bound1_def)
  qed
  ultimately show ?thesis
    by simp
qed

lemma quantize_same_length:
  assumes "length z = length levels"
  shows "quantize levels eps z = Inr (map2 (\<lambda>L v. quantize1 L eps v) levels z)"
proof -
  let ?b = "map2 (\<lambda>L v. bound1 L eps v) levels z"
  let ?h = "map (\<lambda>h. Fin (real_of_int h)) (half_width levels)"
  have len: "length (map round_ste ?b) = length ?h"
    using assms by simp
  have "map2 fdiv (map round_ste ?b) ?h = map2 (\<lambda>L v. quantize1 L eps v) levels z"
    by (rule nth_equalityI) (use assms in \<open>simp_all add: quantize1_def half_width_def\<close>)
  then show ?thesis
    unfolding quantize_def
    by (simp only: bound_same_length [OF assms] ebind_Inr broadcast2_same_length [OF len])
qed

lemma bound1_Fin:
  assumes "L \<noteq> 1" and "eps \<noteq> 1"
  shows "bound1 L eps (Fin x) =
     (let hl = real_of_int (L - 1) * (1 - eps) / 2;
          off = (if L mod 2 = 1 then 0 else 1 / 2)
      in Fin (tanh (x + tan (off / hl)) * hl - off))"
  using assms by (simp add: bound1_def Let_def fsub_def)

text \<open>
  Claim C2, as amended.  For every dimension \<open>i\<close> with level count \<open>L\<close>, \<open>bound\<close> computes the
  shift as the tangent (not the arctangent) of \<open>offset / half_l\<close>, where
  \<open>half_l = (L - 1) * (1 - eps) / 2\<close> and \<open>offset\<close> is \<open>0\<close> for odd \<open>L\<close> and \<open>0.5\<close> for even
  \<open>L\<close>, and returns \<open>tanh(z_i + shift) * half_l - offset\<close>; for a finite \<open>z_i\<close> and a non-zero
  \<open>half_l\<close> this is a finite number.
\<close>

theorem bound_formula:
  assumes "length z = length levels" and "i < length levels"
  shows "\<exists>b. bound levels eps z = Inr b \<and> length b = length levels \<and>
      b ! i =
        (let L = levels ! i;
             hl = real_of_int (L - 1) * (1 - eps) / 2;
             off = (if L mod 2 = 1 then 0 else 1 / 2)
         in fsub (fmul (ftanh (fadd (z ! i) (ftan (fdiv (Fin off) (Fin hl))))) (Fin hl))
              (Fin off)) \<and>
      (\<forall>x. z ! i = Fin x \<and> levels ! i \<noteq> 1 \<and> eps \<noteq> 1 \<longrightarrow>
         b ! i =
           (let L = levels ! i;
                hl = real_of_int (L - 1) * (1 - eps) / 2;
                off = (if L mod 2 = 1 then 0 else 1 / 2)
            in Fin (tanh (x + tan (off / hl)) * hl - off)))"
proof -
  let ?b = "map2 (\<lambda>L v. bound1 L eps v) levels z"
  have b: "bound levels eps z = Inr ?b"
    using assms(1) by (rule bound_same_length)
  have len: "length ?b = length levels"
    using assms(1) by simp
  have nth: "?b ! i = bound1 (levels ! i) eps (z ! i)"
    using assms by simp
  have "bound1 (levels ! i) eps (z ! i) =
      (let L = levels ! i;
           hl = real_of_int (L - 1) * (1 - eps) / 2;
           off = (if L mod 2 = 1 then 0 else 1 / 2)
       in fsub (fmul (ftanh (fadd (z ! i) (ftan (fdiv (Fin off) (Fin hl))))) (Fin hl))
            (Fin off))"
    by (simp only: bound1_def Let_def)
  with nth have g: "?b ! i =
      (let L = levels ! i;
           hl = real_of_int (L - 1) * (1 - eps) / 2;
           off = (if L mod 2 = 1 then 0 else 1 / 2)
       in fsub (fmul (ftanh (fadd (z ! i) (ftan (fdiv (Fin off) (Fin hl))))) (Fin hl))
            (Fin off))"
    by (rule trans)
  have f: "\<forall>x. z ! i = Fin x \<and> levels ! i \<noteq> 1 \<and> eps \<noteq> 1 \<longrightarrow>
      ?b ! i =
        (let L = levels ! i;
             hl = real_of_int (L - 1) * (1 - eps) / 2;
             off = (if L mod 2 = 1 then 0 else 1 / 2)
         in Fin (tanh (x + tan (off / hl)) * hl - off))"
  proof (intro allI impI)
    fix x
    assume a: "z ! i = Fin x \<and> levels ! i \<noteq> 1 \<and> eps \<noteq> 1"
    then have "bound1 (levels ! i) eps (Fin x) =
        (let hl = real_of_int (levels ! i - 1) * (1 - eps) / 2;
             off = (if levels ! i mod 2 = 1 then 0 else 1 / 2)
         in Fin (tanh (x + tan (off / hl)) * hl - off))"
      by (intro bound1_Fin) simp_all
    then have "bound1 (levels ! i) eps (z ! i) =
        (let L = levels ! i;
             hl = real_of_int (L - 1) * (1 - eps) / 2;
             off = (if L mod 2 = 1 then 0 else 1 / 2)
         in Fin (tanh (x + tan (off / hl)) * hl - off))"
      using a by (simp only: Let_def)
    with nth show "?b ! i =
        (let L = levels ! i;
             hl = real_of_int (L - 1) * (1 - eps) / 2;
             off = (if L mod 2 = 1 then 0 else 1 / 2)
         in Fin (tanh (x + tan (off / hl)) * hl - off))"
      by (rule trans)
  qed
  show ?thesis
    using b len g f by (intro exI [of _ ?b] conjI)
qed

theorem bound_formula_witness:
  "\<exists>b. bound [3, 5, 4] (1 / 1000) [Fin (1 / 4), Fin (3 / 5), Fin (- 7)] = Inr b \<and>
      length b = 3 \<and>
      b ! 2 = Fin (tanh (- 7 + tan ((1 / 2) / (2997 / 2000))) * (2997 / 2000) - 1 / 2)"
  using bound_formula [of "[Fin (1 / 4), Fin (3 / 5), Fin (- 7)]" "[3, 5, 4]" 2 "1 / 1000"]
  by (auto simp add: Let_def)

text \<open>
  With \<open>levels = [4]\<close> and \<open>eps = 0.001\<close> the quotient \<open>offset / half_l\<close> is \<open>1000/2997\<close>,
  whose tangent is greater than its arctangent, so the value of \<open>bound\<close> is not the one
  computed with the arctangent.
\<close>

theorem bound_formula_counterexample:
  "bound [4] (1 / 1000) [Fin 0] =
     Inr [Fin (tanh (0 + tan ((1 / 2) / (2997 / 2000))) * (2997 / 2000) - 1 / 2)] \<and>
   bound [4] (1 / 1000) [Fin 0] \<noteq>
     Inr [Fin (tanh (0 + arctan ((1 / 2) / (2997 / 2000))) * (2997 / 2000) - 1 / 2)]"
proof -
  have b: "bound [4] (1 / 1000) [Fin 0] =
      Inr [Fin (tanh (0 + tan ((1 / 2) / (2997 / 2000))) * (2997 / 2000) - 1 / 2)]"
    by (simp add: bound_same_length bound1_def fsub_def)
  have "(1000 / 2997 :: real) < 1"
    by simp
  also have "(1 :: real) \<le> pi / 2"
    using pi_ge_two by simp
  finally have "arctan (1000 / 2997) < tan (1000 / 2997)"
    by (intro arctan_less_tan) simp_all
  then have "tan (1000 / 2997 :: real) \<noteq> arctan (1000 / 2997)"
    by simp
  then show ?thesis
    using b by simp
qed

subsection \<open>Quantization\<close>


lemma quantize1_Fin:
  assumes "2 \<le> L" and "0 \<le> eps" and "eps < 1"
  shows "quantize1 L eps (Fin x) =
     true_divide (quantized_digit L eps x - L div 2) (L div 2)"
proof -
  have "L \<noteq> 1" and "eps \<noteq> 1" and h: "L div 2 \<noteq> 0"
    using assms by simp_all
  then show ?thesis
    by (simp add: quantize1_def bound1_Fin round_ste_def fsub_def Let_def quantized_digit_def
        true_divide_def)
qed








subsection \<open>Checks of the input shape\<close>

lemma codes_to_indexes_asserts:
  "length zhat \<noteq> num_dimensions levels \<Longrightarrow> codes_to_indexes levels zhat = Inl AssertionError"
  by (simp add: codes_to_indexes_def)

text \<open>
  Claim C8.  \<open>codes_to_indexes\<close> asserts that the last axis of its input has \<open>num_dimensions\<close>
  entries, but \<open>quantize\<close> has no such check: with \<open>levels = [3, 5, 4]\<close> an input of one
  entry is broadcast against the three dimensions and a codeword of three components is
  returned, the same as for the input repeated three times.  An input of two entries is
  rejected by the first addition itself.
\<close>

theorem quantize_broadcasts:
  "num_dimensions [3, 5, 4] = 3 \<and>
   codes_to_indexes [3, 5, 4] [Fin 0] = Inl AssertionError \<and>
   quantize [3, 5, 4] (1 / 1000) [Fin (1 / 4)] =
     Inr [quantize1 3 (1 / 1000) (Fin (1 / 4)), quantize1 5 (1 / 1000) (Fin (1 / 4)),
          quantize1 4 (1 / 1000) (Fin (1 / 4))] \<and>
   quantize [3, 5, 4] (1 / 1000) [Fin (1 / 4)] =
     quantize [3, 5, 4] (1 / 1000) [Fin (1 / 4), Fin (1 / 4), Fin (1 / 4)] \<and>
   quantize [3, 5, 4] (1 / 1000) [Fin (1 / 4), Fin (3 / 5)] = Inl ShapeError"
  by (simp add: quantize_def bound_def shift_def offset_def half_l_def half_width_def
      broadcast2_def round_ste_def fsub_def quantize1_def bound1_def num_dimensions_def
      codes_to_indexes_def)

subsection \<open>Rounding in the index codec\<close>

lemma binary_exponent_unfold:
  "0 < n \<Longrightarrow> binary_exponent n x =
     (if 2 \<le> x then binary_exponent (n - 1) (x / 2) + 1
      else if x < 1 then binary_exponent (n - 1) (x * 2) - 1
      else 0)"
  by (cases n) simp_all

lemma round_to_eval:
  assumes "x \<noteq> 0" and "binary_exponent 2200 \<bar>x\<bar> = e"
    and "max (e - precision fmt + 1) (least_exponent fmt) = q"
    and "round_half_even (x / pow2 q) = n"
    and "\<bar>real_of_int n * pow2 q\<bar> < pow2 (greatest_exponent fmt + 1)"
  shows "round_to fmt x = Fin (real_of_int n * pow2 q)"
  using assms by (simp add: round_to_def Let_def)

text \<open>The roundings of the two computations below, one operation at a time.\<close>

lemma round_binary64_0: "round_to Binary64 (- 14) = Fin (- 14)"
proof -
  have "round_to Binary64 (- 14) = Fin (real_of_int (- 7881299347898368) * pow2 (- 49))"
    by (rule round_to_eval [where e = "3"])
      (simp_all add: binary_exponent_unfold pow2_def round_half_even_def Let_def)
  then show ?thesis
    by (simp add: pow2_def)
qed

lemma dec50_num: "fp_of_int Binary64 (- 14) = Fin (- 14)"
  unfolding fp_of_int_def using round_binary64_0 by simp

lemma round_binary64_1: "round_to Binary64 (25) = Fin (25)"
proof -
  have "round_to Binary64 (25) = Fin (real_of_int (7036874417766400) * pow2 (- 48))"
    by (rule round_to_eval [where e = "4"])
      (simp_all add: binary_exponent_unfold pow2_def round_half_even_def Let_def)
  then show ?thesis
    by (simp add: pow2_def)
qed

lemma dec50_den: "fp_of_int Binary64 (25) = Fin (25)"
  unfolding fp_of_int_def using round_binary64_1 by simp

lemma round_binary64_2: "round_to Binary64 (- (14 / 25)) = Fin (- (1261007895663739 / 2251799813685248))"
proof -
  have "round_to Binary64 (- (14 / 25)) = Fin (real_of_int (- 5044031582654956) * pow2 (- 53))"
    by (rule round_to_eval [where e = "- 1"])
      (simp_all add: binary_exponent_unfold pow2_def round_half_even_def Let_def)
  then show ?thesis
    by (simp add: pow2_def)
qed

lemma dec50_code: "fp_div Binary64 (Fin (- 14)) (Fin (25)) = Fin (- (1261007895663739 / 2251799813685248))"
proof -
  have "fdiv (Fin (- 14)) (Fin (25)) = Fin (- (14 / 25))"
    by simp
  then show ?thesis
    by (simp only: fp_div_def rnd.simps round_binary64_2)
qed

lemma round_binary64_3: "round_to Binary64 (- (31525197391593475 / 2251799813685248)) = Fin (- (7881299347898369 / 562949953421312))"
proof -
  have "round_to Binary64 (- (31525197391593475 / 2251799813685248)) = Fin (real_of_int (- 7881299347898369) * pow2 (- 49))"
    by (rule round_to_eval [where e = "3"])
      (simp_all add: binary_exponent_unfold pow2_def round_half_even_def Let_def)
  then show ?thesis
    by (simp add: pow2_def)
qed

lemma enc50_scaled: "fp_mul Binary64 (Fin (- (1261007895663739 / 2251799813685248))) (Fin (25)) = Fin (- (7881299347898369 / 562949953421312))"
proof -
  have "fmul (Fin (- (1261007895663739 / 2251799813685248))) (Fin (25)) = Fin (- (31525197391593475 / 2251799813685248))"
    by simp
  then show ?thesis
    by (simp only: fp_mul_def rnd.simps round_binary64_3)
qed

lemma round_binary64_4: "round_to Binary64 (6192449487634431 / 562949953421312) = Fin (6192449487634431 / 562949953421312)"
proof -
  have "round_to Binary64 (6192449487634431 / 562949953421312) = Fin (real_of_int (6192449487634431) * pow2 (- 49))"
    by (rule round_to_eval [where e = "3"])
      (simp_all add: binary_exponent_unfold pow2_def round_half_even_def Let_def)
  then show ?thesis
    by (simp add: pow2_def)
qed

lemma enc50_shifted: "fp_add Binary64 (Fin (- (7881299347898369 / 562949953421312))) (Fin (25)) = Fin (6192449487634431 / 562949953421312)"
proof -
  have "fadd (Fin (- (7881299347898369 / 562949953421312))) (Fin (25)) = Fin (6192449487634431 / 562949953421312)"
    by simp
  then show ?thesis
    by (simp only: fp_add_def rnd.simps round_binary64_4)
qed

lemma round_binary64_5: "round_to Binary64 (1) = Fin (1)"
proof -
  have "round_to Binary64 (1) = Fin (real_of_int (4503599627370496) * pow2 (- 52))"
    by (rule round_to_eval [where e = "0"])
      (simp_all add: binary_exponent_unfold pow2_def round_half_even_def Let_def)
  then show ?thesis
    by (simp add: pow2_def)
qed

lemma enc50_one: "fp_of_int Binary64 (1) = Fin (1)"
  unfolding fp_of_int_def using round_binary64_5 by simp

lemma enc50_weighted: "fp_mul Binary64 (Fin (6192449487634431 / 562949953421312)) (Fin (1)) = Fin (6192449487634431 / 562949953421312)"
proof -
  have "fmul (Fin (6192449487634431 / 562949953421312)) (Fin (1)) = Fin (6192449487634431 / 562949953421312)"
    by simp
  then show ?thesis
    by (simp only: fp_mul_def rnd.simps round_binary64_4)
qed

lemma enc50_sum: "fp_add Binary64 (Fin (0)) (Fin (6192449487634431 / 562949953421312)) = Fin (6192449487634431 / 562949953421312)"
proof -
  have "fadd (Fin (0)) (Fin (6192449487634431 / 562949953421312)) = Fin (6192449487634431 / 562949953421312)"
    by simp
  then show ?thesis
    by (simp only: fp_add_def rnd.simps round_binary64_4)
qed

lemma round_binary32_6: "round_to Binary32 (- 7) = Fin (- 7)"
proof -
  have "round_to Binary32 (- 7) = Fin (real_of_int (- 14680064) * pow2 (- 21))"
    by (rule round_to_eval [where e = "2"])
      (simp_all add: binary_exponent_unfold pow2_def round_half_even_def Let_def)
  then show ?thesis
    by (simp add: pow2_def)
qed

lemma q27_num: "fp_of_int Binary32 (- 7) = Fin (- 7)"
  unfolding fp_of_int_def using round_binary32_6 by simp

lemma round_binary32_7: "round_to Binary32 (13) = Fin (13)"
proof -
  have "round_to Binary32 (13) = Fin (real_of_int (13631488) * pow2 (- 20))"
    by (rule round_to_eval [where e = "3"])
      (simp_all add: binary_exponent_unfold pow2_def round_half_even_def Let_def)
  then show ?thesis
    by (simp add: pow2_def)
qed

lemma q27_den: "fp_of_int Binary32 (13) = Fin (13)"
  unfolding fp_of_int_def using round_binary32_7 by simp

lemma round_binary32_8: "round_to Binary32 (- (7 / 13)) = Fin (- (4516943 / 8388608))"
proof -
  have "round_to Binary32 (- (7 / 13)) = Fin (real_of_int (- 9033886) * pow2 (- 24))"
    by (rule round_to_eval [where e = "- 1"])
      (simp_all add: binary_exponent_unfold pow2_def round_half_even_def Let_def)
  then show ?thesis
    by (simp add: pow2_def)
qed

lemma q27_code: "fp_div Binary32 (Fin (- 7)) (Fin (13)) = Fin (- (4516943 / 8388608))"
proof -
  have "fdiv (Fin (- 7)) (Fin (13)) = Fin (- (7 / 13))"
    by simp
  then show ?thesis
    by (simp only: fp_div_def rnd.simps round_binary32_8)
qed

lemma round_binary32_9: "round_to Binary32 (- (58720259 / 8388608)) = Fin (- (14680065 / 2097152))"
proof -
  have "round_to Binary32 (- (58720259 / 8388608)) = Fin (real_of_int (- 14680065) * pow2 (- 21))"
    by (rule round_to_eval [where e = "2"])
      (simp_all add: binary_exponent_unfold pow2_def round_half_even_def Let_def)
  then show ?thesis
    by (simp add: pow2_def)
qed

lemma enc27_scaled: "fp_mul Binary32 (Fin (- (4516943 / 8388608))) (Fin (13)) = Fin (- (14680065 / 2097152))"
proof -
  have "fmul (Fin (- (4516943 / 8388608))) (Fin (13)) = Fin (- (58720259 / 8388608))"
    by simp
  then show ?thesis
    by (simp only: fp_mul_def rnd.simps round_binary32_9)
qed

lemma round_binary32_10: "round_to Binary32 (12582911 / 2097152) = Fin (12582911 / 2097152)"
proof -
  have "round_to Binary32 (12582911 / 2097152) = Fin (real_of_int (12582911) * pow2 (- 21))"
    by (rule round_to_eval [where e = "2"])
      (simp_all add: binary_exponent_unfold pow2_def round_half_even_def Let_def)
  then show ?thesis
    by (simp add: pow2_def)
qed

lemma enc27_shifted: "fp_add Binary32 (Fin (- (14680065 / 2097152))) (Fin (13)) = Fin (12582911 / 2097152)"
proof -
  have "fadd (Fin (- (14680065 / 2097152))) (Fin (13)) = Fin (12582911 / 2097152)"
    by simp
  then show ?thesis
    by (simp only: fp_add_def rnd.simps round_binary32_10)
qed

lemma round_binary32_11: "round_to Binary32 (1) = Fin (1)"
proof -
  have "round_to Binary32 (1) = Fin (real_of_int (8388608) * pow2 (- 23))"
    by (rule round_to_eval [where e = "0"])
      (simp_all add: binary_exponent_unfold pow2_def round_half_even_def Let_def)
  then show ?thesis
    by (simp add: pow2_def)
qed

lemma enc27_one: "fp_of_int Binary32 (1) = Fin (1)"
  unfolding fp_of_int_def using round_binary32_11 by simp

lemma enc27_weighted: "fp_mul Binary32 (Fin (12582911 / 2097152)) (Fin (1)) = Fin (12582911 / 2097152)"
proof -
  have "fmul (Fin (12582911 / 2097152)) (Fin (1)) = Fin (12582911 / 2097152)"
    by simp
  then show ?thesis
    by (simp only: fp_mul_def rnd.simps round_binary32_10)
qed

lemma enc27_sum: "fp_add Binary32 (Fin (0)) (Fin (12582911 / 2097152)) = Fin (12582911 / 2097152)"
proof -
  have "fadd (Fin (0)) (Fin (12582911 / 2097152)) = Fin (12582911 / 2097152)"
    by simp
  then show ?thesis
    by (simp only: fp_add_def rnd.simps round_binary32_10)
qed

lemma round_binary64_12: "round_to Binary64 (- 8) = Fin (- 8)"
proof -
  have "round_to Binary64 (- 8) = Fin (real_of_int (- 4503599627370496) * pow2 (- 49))"
    by (rule round_to_eval [where e = "3"])
      (simp_all add: binary_exponent_unfold pow2_def round_half_even_def Let_def)
  then show ?thesis
    by (simp add: pow2_def)
qed

lemma dec27_num: "fp_of_int Binary64 (- 8) = Fin (- 8)"
  unfolding fp_of_int_def using round_binary64_12 by simp

lemma round_binary64_13: "round_to Binary64 (13) = Fin (13)"
proof -
  have "round_to Binary64 (13) = Fin (real_of_int (7318349394477056) * pow2 (- 49))"
    by (rule round_to_eval [where e = "3"])
      (simp_all add: binary_exponent_unfold pow2_def round_half_even_def Let_def)
  then show ?thesis
    by (simp add: pow2_def)
qed

lemma dec27_den: "fp_of_int Binary64 (13) = Fin (13)"
  unfolding fp_of_int_def using round_binary64_13 by simp

lemma round_binary64_14: "round_to Binary64 (- (8 / 13)) = Fin (- (1385722962267845 / 2251799813685248))"
proof -
  have "round_to Binary64 (- (8 / 13)) = Fin (real_of_int (- 5542891849071380) * pow2 (- 53))"
    by (rule round_to_eval [where e = "- 1"])
      (simp_all add: binary_exponent_unfold pow2_def round_half_even_def Let_def)
  then show ?thesis
    by (simp add: pow2_def)
qed

lemma dec27_code: "fp_div Binary64 (Fin (- 8)) (Fin (13)) = Fin (- (1385722962267845 / 2251799813685248))"
proof -
  have "fdiv (Fin (- 8)) (Fin (13)) = Fin (- (8 / 13))"
    by simp
  then show ?thesis
    by (simp only: fp_div_def rnd.simps round_binary64_14)
qed

text \<open>
  Claim C1.  The claim is that encoding the codeword decoded from an index returns the index,
  which the source announces too (\<open>indexes_to_codes\<close> is documented as the inverse).  With
  \<open>levels = [50]\<close> the index \<open>11\<close> is in range.  \<open>indexes_to_codes\<close> divides \<open>11 - 25\<close> by
  \<open>25\<close> in \<open>float64\<close>, which gives a number just beyond \<open>-0.56\<close>; \<open>codes_to_indexes\<close> multiplies
  it by \<open>25\<close>, adds \<open>25\<close> and gets \<open>10.999999999999998\<close>, which \<open>astype(uint32)\<close> truncates
  to \<open>10\<close>, not \<open>11\<close>.
\<close>

theorem index_roundtrip_binary64:
  "codebook_size [50] = 50 \<and>
   indexes_to_codes_fp [50] 11 = Inr [Fin (- (1261007895663739 / 2251799813685248))] \<and>
   codes_to_indexes_fp Binary64 [50] [Fin (- (1261007895663739 / 2251799813685248))] =
     Inr (Some 10)"
proof -
  have "codebook_size [50] = 50"
    by (simp add: codebook_size_def np_prod_def wrap64_def)
  moreover have "indexes_to_codes_fp [50] 11 =
      Inr [Fin (- (1261007895663739 / 2251799813685248))]"
    by (simp add: indexes_to_codes_fp_def basis_def cumprod_def to_uint32_def broadcast2_def
        np_floor_divide_def np_mod_def scale_and_shift_inverse_fp_def half_width_def
        true_divide_fp_def dec50_num dec50_den dec50_code)
  moreover have "codes_to_indexes_fp Binary64 [50]
      [Fin (- (1261007895663739 / 2251799813685248))] = Inr (Some 10)"
    by (simp add: codes_to_indexes_fp_def num_dimensions_def scale_and_shift_fp_def
        half_width_def broadcast2_def basis_def cumprod_def to_uint32_def np_sum_fp_def
        dec50_den enc50_scaled enc50_shifted enc50_one enc50_weighted enc50_sum)
  ultimately show ?thesis
    by simp
qed

text \<open>
  The input \<open>-0.625\<close> of a dimension with 27 levels: bounds of \<open>exp\<close> and \<open>tanh\<close> show that
  the bounded value rounds to \<open>-7\<close>, the digit \<open>6\<close>.
\<close>

lemma round_half_even_eqI:
  assumes "real_of_int n - 1 / 2 < x" and "x < real_of_int n + 1 / 2"
  shows "round_half_even x = n"
proof -
  have "real_of_int (round_half_even x) < real_of_int n + 1"
    and "real_of_int n - 1 < real_of_int (round_half_even x)"
    using round_half_even_bounds [of x] assms by linarith+
  then show ?thesis
    by linarith
qed

lemma exp_5_4_bounds: "33 / 10 < exp (5 / 4 :: real) \<and> exp (5 / 4 :: real) < 37 / 10"
proof -
  have "1 + (5 / 8) + (5 / 8)\<^sup>2 / 2 \<le> exp (5 / 8 :: real)"
    by (rule exp_lower_Taylor_quadratic) simp
  then have l: "(233 / 128 :: real) \<le> exp (5 / 8)"
    by (simp add: power2_eq_square)
  have "(233 / 128 :: real) * (233 / 128) \<le> exp (5 / 8) * exp (5 / 8)"
    using l by (intro mult_mono) simp_all
  moreover have "exp (5 / 8 :: real) * exp (5 / 8) = exp (5 / 4)"
    by (simp add: exp_add [symmetric])
  ultimately have lower: "33 / 10 < exp (5 / 4 :: real)"
    by simp
  have "exp (5 / 64 :: real) \<le> 1 + 5 / 64 + (5 / 64)\<^sup>2"
    by (rule exp_bound) simp_all
  then have u: "exp (5 / 64 :: real) \<le> 4441 / 4096"
    by (simp add: power2_eq_square)
  have "exp (of_nat 16 * (5 / 64 :: real)) = exp (5 / 64) ^ 16"
    by (rule exp_of_nat_mult)
  then have "exp (5 / 4 :: real) = exp (5 / 64) ^ 16"
    by simp
  also have "\<dots> \<le> (4441 / 4096) ^ 16"
    using u by (intro power_mono) simp_all
  also have "\<dots> < 37 / 10"
    by (simp add: power_divide)
  finally show ?thesis
    using lower by simp
qed

lemma tanh_5_8_bounds: "53 / 100 < tanh (5 / 8 :: real) \<and> tanh (5 / 8 :: real) < 575 / 1000"
proof -
  define E where "E = exp (5 / 4 :: real)"
  have E: "33 / 10 < E" "E < 37 / 10"
    using exp_5_4_bounds by (simp_all add: E_def)
  have "exp (- 2 * (5 / 8) :: real) = inverse E"
    by (simp add: E_def exp_minus)
  then have "tanh (5 / 8 :: real) = (1 - inverse E) / (1 + inverse E)"
    by (simp only: tanh_real_altdef)
  also have "\<dots> = ((E - 1) / E) / ((E + 1) / E)"
    using E by (simp add: inverse_eq_divide diff_divide_distrib add_divide_distrib)
  also have "\<dots> = (E - 1) / (E + 1)"
    using E by simp
  finally have t: "tanh (5 / 8 :: real) = (E - 1) / (E + 1)" .
  have "53 / 100 < (E - 1) / (E + 1)" and "(E - 1) / (E + 1) < 575 / 1000"
    using E by (simp_all add: pos_less_divide_eq pos_divide_less_eq)
  then show ?thesis
    by (simp only: t)
qed

lemma quantized_digit_27: "quantized_digit 27 (1 / 1000) (- (5 / 8)) = 6"
proof -
  let ?b = "tanh (- (5 / 8 :: real)) * (12987 / 1000)"
  have t: "tanh (- (5 / 8 :: real)) = - tanh (5 / 8)"
    by simp
  have "real_of_int (- 7) - 1 / 2 < ?b" and "?b < real_of_int (- 7) + 1 / 2"
    using tanh_5_8_bounds unfolding t by simp_all
  then have "round_half_even ?b = - 7"
    by (rule round_half_even_eqI)
  then show ?thesis
    by (simp add: quantized_digit_def)
qed

lemma quantize_27: "quantize [27] (1 / 1000) [Fin (- (5 / 8))] = Inr [Fin (- (7 / 13))]"
proof -
  have "quantize [27] (1 / 1000) [Fin (- (5 / 8))] =
      Inr [quantize1 27 (1 / 1000) (Fin (- (5 / 8)))]"
    by (simp add: quantize_same_length)
  moreover have "quantize1 27 (1 / 1000) (Fin (- (5 / 8))) =
      true_divide (quantized_digit 27 (1 / 1000) (- (5 / 8)) - 27 div 2) (27 div 2)"
    by (rule quantize1_Fin) simp_all
  ultimately show ?thesis
    by (simp add: quantized_digit_27 true_divide_def)
qed

text \<open>
  Claim C4.  The claim is that decoding the index of a codeword of \<open>quantize\<close> returns that
  codeword.  With \<open>levels = [27]\<close> and the input \<open>-0.625\<close> the quantized value is \<open>-7\<close>, the
  level \<open>-7/13\<close>; \<open>quantize\<close> divides \<open>-7\<close> by \<open>13\<close> in \<open>float32\<close>, which gives a number
  just beyond \<open>-7/13\<close>; \<open>codes_to_indexes\<close> multiplies it by \<open>13\<close>, adds \<open>13\<close> and gets
  \<open>5.9999995\<close>, which \<open>astype(uint32)\<close> truncates to the index \<open>5\<close>; and \<open>indexes_to_codes\<close>
  decodes \<open>5\<close> to the \<open>float64\<close> number nearest \<open>-8/13\<close>, another codeword.
\<close>

theorem codeword_roundtrip_binary32:
  "quantize [27] (1 / 1000) [Fin (- (5 / 8))] = Inr [Fin (- (7 / 13))] \<and>
   fp_div Binary32 (fp_of_int Binary32 (- 7)) (fp_of_int Binary32 13) =
     Fin (- (4516943 / 8388608)) \<and>
   codes_to_indexes_fp Binary32 [27] [Fin (- (4516943 / 8388608))] = Inr (Some 5) \<and>
   indexes_to_codes_fp [27] 5 = Inr [Fin (- (1385722962267845 / 2251799813685248))]"
proof -
  have "fp_div Binary32 (fp_of_int Binary32 (- 7)) (fp_of_int Binary32 13) =
      Fin (- (4516943 / 8388608))"
    by (simp add: q27_num q27_den q27_code)
  moreover have "codes_to_indexes_fp Binary32 [27] [Fin (- (4516943 / 8388608))] =
      Inr (Some 5)"
    by (simp add: codes_to_indexes_fp_def num_dimensions_def scale_and_shift_fp_def
        half_width_def broadcast2_def basis_def cumprod_def to_uint32_def np_sum_fp_def
        q27_den enc27_scaled enc27_shifted enc27_one enc27_weighted enc27_sum)
  moreover have "indexes_to_codes_fp [27] 5 =
      Inr [Fin (- (1385722962267845 / 2251799813685248))]"
    by (simp add: indexes_to_codes_fp_def basis_def cumprod_def to_uint32_def broadcast2_def
        np_floor_divide_def np_mod_def scale_and_shift_inverse_fp_def half_width_def
        true_divide_fp_def dec27_num dec27_den dec27_code)
  ultimately show ?thesis
    using quantize_27 by simp
qed

end
